theory Spec2Isabelle
  imports Main "HOL-Library.Char_ord" "HOL-Library.List_Lexorder"
begin

section \<open>dbacker: table backups with a retention sweep (main.go)\<close>

text \<open>
  The program connects to one PostgreSQL database and calls \<open>performBackup\<close>, which
  first drops dated backup tables older than the retention window
  (\<open>deleteOldBackups\<close>) and then copies every other table into a table named
  \<open>prefix_table_YYYYMMDD\<close> (\<open>getTablesToBackup\<close>, \<open>createBackupTable\<close>).

  Go strings are byte sequences: \<open>len\<close> counts bytes, slicing cuts bytes and \<open><\<close>
  compares bytewise. They are modelled as \<open>string\<close> (lists of 8-bit characters) with
  the lexicographic order of \<open>List_Lexorder\<close> over the byte order of \<open>Char_ord\<close>.
\<close>

subsection \<open>The calendar: \<open>time.Now()\<close>, \<open>AddDate(0, 0, k)\<close> and \<open>Format("20060102")\<close>\<close>

text \<open>
  The standard library is not part of the repository. Of a \<open>time.Time\<close> the program
  uses only the civil date in the local time zone, so a reading of the clock is a
  \<open>date\<close>. This part is the arithmetic of the proleptic Gregorian calendar, one day
  at a time; what the library adds to it (the time zone, the range of the machine
  integers) is with \<open>AddDate\<close> below.
\<close>

datatype date = Date (year: int) (month: nat) (day: nat)

definition is_leap :: "int \<Rightarrow> bool" where
  "is_leap y = (y mod 4 = 0 \<and> (y mod 100 \<noteq> 0 \<or> y mod 400 = 0))"

definition days_in :: "int \<Rightarrow> nat \<Rightarrow> nat" where
  "days_in y m =
     (if m = 2 then (if is_leap y then 29 else 28)
      else if m = 4 \<or> m = 6 \<or> m = 9 \<or> m = 11 then 30
      else 31)"

definition valid_date :: "date \<Rightarrow> bool" where
  "valid_date d = (1 \<le> month d \<and> month d \<le> 12 \<and> 1 \<le> day d \<and> day d \<le> days_in (year d) (month d))"

definition next_day :: "date \<Rightarrow> date" where
  "next_day d =
     (if day d < days_in (year d) (month d) then Date (year d) (month d) (day d + 1)
      else if month d < 12 then Date (year d) (month d + 1) 1
      else Date (year d + 1) 1 1)"

definition prev_day :: "date \<Rightarrow> date" where
  "prev_day d =
     (if 1 < day d then Date (year d) (month d) (day d - 1)
      else if 1 < month d then Date (year d) (month d - 1) (days_in (year d) (month d - 1))
      else Date (year d - 1) 12 31)"

fun days_after :: "nat \<Rightarrow> date \<Rightarrow> date" where
  "days_after 0 d = d"
| "days_after (Suc n) d = days_after n (next_day d)"

fun days_before :: "nat \<Rightarrow> date \<Rightarrow> date" where
  "days_before 0 d = d"
| "days_before (Suc n) d = days_before n (prev_day d)"

text \<open>The civil date \<open>k\<close> days after \<open>d\<close> (before it, for a negative \<open>k\<close>).\<close>

definition add_days :: "date \<Rightarrow> int \<Rightarrow> date" where
  "add_days d k = (if 0 \<le> k then days_after (nat k) d else days_before (nat (- k)) d)"

text \<open>
  \<open>Format\<close> writes the year with at least four digits and month and day with two,
  through the library's \<open>appendInt(b, x, width)\<close>: a minus sign for a negative number,
  then the decimal digits padded with zeros on the left up to \<open>width\<close>. A year above
  9999 is written with all its digits.
\<close>

definition digit_char :: "nat \<Rightarrow> char" where
  "digit_char n = char_of (48 + n)"

fun dec_digits :: "nat \<Rightarrow> string" where
  "dec_digits n = (if n < 10 then [digit_char n] else dec_digits (n div 10) @ [digit_char (n mod 10)])"

declare dec_digits.simps [simp del]

definition appendInt :: "int \<Rightarrow> nat \<Rightarrow> string" where
  "appendInt x width =
     (let ds = dec_digits (nat \<bar>x\<bar>)
      in (if x < 0 then ''-'' else '''') @ replicate (width - length ds) (CHR ''0'') @ ds)"

text \<open>\<open>t.Format("20060102")\<close>.\<close>

definition format_date :: "date \<Rightarrow> string" where
  "format_date d = appendInt (year d) 4 @ appendInt (int (month d)) 2 @ appendInt (int (day d)) 2"

subsection \<open>The catalog queries: SQL \<open>LIKE\<close>\<close>

text \<open>
  Both queries read \<open>information_schema.tables\<close> for schema \<open>public\<close> and filter with
  \<open>table_name LIKE $1 || '%'\<close>, or \<open>NOT LIKE\<close>, where \<open>$1\<close> is the prefix as configured:
  the prefix is used as a pattern, not as a literal. In a pattern \<open>%\<close> matches any
  sequence of characters, \<open>_\<close> any one character, and a backslash makes the next
  character literal. A pattern that ends in a lone backslash is rejected by the server;
  that cannot happen here, where every pattern ends in the appended \<open>%\<close>, and
  \<open>like_match\<close> is False there. One character is one byte in this model.
\<close>

fun like_match :: "string \<Rightarrow> string \<Rightarrow> bool" where
  "like_match [] s = (s = [])"
| "like_match (p # ps) s =
     (if p = CHR ''%'' then
        (case s of [] \<Rightarrow> like_match ps [] | c # cs \<Rightarrow> like_match ps (c # cs) \<or> like_match (p # ps) cs)
      else if p = CHR ''_'' then
        (case s of [] \<Rightarrow> False | c # cs \<Rightarrow> like_match ps cs)
      else if p = CHR 0x5C then
        (case ps of [] \<Rightarrow> False
         | q # qs \<Rightarrow> (case s of [] \<Rightarrow> False | c # cs \<Rightarrow> q = c \<and> like_match qs cs))
      else
        (case s of [] \<Rightarrow> False | c # cs \<Rightarrow> p = c \<and> like_match ps cs))"

text \<open>The \<open>WHERE\<close> clause of \<open>deleteOldBackups\<close>: \<open>table_name LIKE $1 || '%'\<close>.\<close>

definition has_prefix :: "string \<Rightarrow> string \<Rightarrow> bool" where
  "has_prefix prefix name = like_match (prefix @ ''%'') name"


subsection \<open>The database as the program sees it\<close>

text \<open>
  \<open>catalog\<close> lists the names of the tables of schema \<open>public\<close>, in the order the
  server enumerates them. \<open>trace\<close> records, in order, every query sent, every statement
  handed to \<open>db.Exec\<close> (whether it succeeds or not) and every line logged.

  The program builds its statements as text, \<open>DROP TABLE IF EXISTS t\<close> and
  \<open>CREATE TABLE b AS SELECT * FROM t\<close>, from unquoted names. The model takes the names
  as plain identifiers, so that each statement addresses the table of that name, and keeps
  the statement structured.
\<close>

datatype db_error = DbError string

datatype stmt =
    DropTableIfExists string
  | CreateTableAs string string

datatype query =
    SelectLike string
  | SelectNotLike string

text \<open>
  The four lines the program logs: a drop that failed (line 168), a table dropped, or
  that would be in a dry run (line 172), a backup that failed (line 121), a backup made,
  or that would be in a dry run (line 125), with the table and the name of its backup.
\<close>

datatype log_entry =
    LogDropFailed string db_error
  | LogDropped string
  | LogCreateFailed string db_error
  | LogCreated string string

datatype event =
    Queried query
  | Executed stmt
  | Logged log_entry

record world =
  catalog :: "string list"
  trace :: "event list"

fun executed_of :: "event list \<Rightarrow> stmt list" where
  "executed_of [] = []"
| "executed_of (Executed s # es) = s # executed_of es"
| "executed_of (Queried q # es) = executed_of es"
| "executed_of (Logged l # es) = executed_of es"

fun logged_of :: "event list \<Rightarrow> log_entry list" where
  "logged_of [] = []"
| "logged_of (Logged l # es) = l # logged_of es"
| "logged_of (Queried q # es) = logged_of es"
| "logged_of (Executed s # es) = logged_of es"

text \<open>
  What lies outside the program: the two readings of the clock (one in
  \<open>deleteOldBackups\<close>, one in \<open>performBackup\<close>), the time zone, the library's
  behaviour beyond the range of its arithmetic, and what goes wrong in the database.

  \<open>wall_date\<close> is the time zone of the clock: \<open>AddDate\<close> computes a civil date and
  keeps the time of day, and when a transition of the zone skips that wall-clock time
  the library lands on another one; \<open>wall_date E d\<close> is the date it shows for the
  civil date \<open>d\<close>, which is \<open>d\<close> itself wherever the wall-clock time exists.
  \<open>overflow_date E k\<close> is the date \<open>AddDate(0, 0, k)\<close> yields for an offset \<open>k\<close>
  outside \<open>day_range\<close>, where the library's integer arithmetic may wrap.

  A query can fail in three places (package \<open>database/sql\<close>): \<open>db.Query\<close> returns an
  error; \<open>rows.Scan\<close> returns an error on some row; or \<open>rows.Next()\<close> returns false
  before the last row because fetching failed, the error being held for \<open>rows.Err()\<close>.
  A statement can be refused for reasons the catalog does not show (permissions, locks):
  \<open>exec_fault\<close> decides it from the number of statements executed so far and the
  statement.
\<close>

text \<open>
  \<open>ScanFails i e\<close>: \<open>rows.Scan\<close> fails on row \<open>i\<close> (counted from 0).
  \<open>StreamBreaks i e\<close>: fetching fails after \<open>i\<close> rows. After at least one row,
  \<open>rows.Next()\<close> returns false; before the first row the driver (\<open>lib/pq\<close>) has not
  yet returned from \<open>db.Query\<close> and reports the error there.
\<close>

datatype query_fault =
    NoFault
  | QueryFails db_error
  | ScanFails nat db_error
  | StreamBreaks nat db_error

record env =
  sweep_now :: date
  snapshot_now :: date
  wall_date :: "date \<Rightarrow> date"
  overflow_date :: "int \<Rightarrow> date"
  like_fault :: query_fault
  notlike_fault :: query_fault
  exec_fault :: "nat \<Rightarrow> stmt \<Rightarrow> db_error option"

text \<open>
  \<open>db_Query fault names\<close>: what \<open>db.Query\<close> returns when the server would answer with
  the rows \<open>names\<close>: an error, or the sequence of \<open>rows.Scan\<close> results that the loop
  \<open>for rows.Next()\<close> goes through. The loop cannot tell a broken stream from the end of
  the rows.
\<close>

fun db_Query :: "query_fault \<Rightarrow> string list \<Rightarrow> db_error + (db_error + string) list" where
  "db_Query NoFault names = Inr (map Inr names)"
| "db_Query (QueryFails e) names = Inl e"
| "db_Query (ScanFails i e) names =
     Inr (map Inr (take i names) @ (if i < length names then [Inl e] else []))"
| "db_Query (StreamBreaks i e) names =
     (if i = 0 then Inl e else Inr (map Inr (take i names)))"

text \<open>
  Whether the enumeration of \<open>names\<close> failed, in any of the three ways. A fault
  placed after the last row, once rows have been delivered, has no effect and is no
  failure.
\<close>

fun enumeration_failed :: "query_fault \<Rightarrow> string list \<Rightarrow> bool" where
  "enumeration_failed NoFault names = False"
| "enumeration_failed (QueryFails e) names = True"
| "enumeration_failed (ScanFails i e) names = (i < length names)"
| "enumeration_failed (StreamBreaks i e) names = (i = 0 \<or> i < length names)"

definition db_Exec :: "env \<Rightarrow> stmt \<Rightarrow> world \<Rightarrow> db_error option \<times> world" where
  "db_Exec E s w =
     (let w1 = w\<lparr>trace := trace w @ [Executed s]\<rparr> in
      case exec_fault E (length (executed_of (trace w))) s of
        Some e \<Rightarrow> (Some e, w1)
      | None \<Rightarrow>
          (case s of
             DropTableIfExists t \<Rightarrow> (None, w1\<lparr>catalog := removeAll t (catalog w)\<rparr>)
           | CreateTableAs b src \<Rightarrow>
               if src \<notin> set (catalog w) then (Some (DbError ''relation does not exist''), w1)
               else if b \<in> set (catalog w) then (Some (DbError ''relation already exists''), w1)
               else (None, w1\<lparr>catalog := catalog w @ [b]\<rparr>)))"

text \<open>
  The rows the server has for the two queries: the names of \<open>public\<close> that are
  \<open>LIKE $1 || '%'\<close> (lines 137 to 141) and those that are \<open>NOT LIKE $1 || '%'\<close>
  (lines 180 to 184). A table name is never null, so \<open>NOT LIKE\<close> is the negation.
\<close>

definition select_like :: "string \<Rightarrow> world \<Rightarrow> string list" where
  "select_like prefix w = filter (has_prefix prefix) (catalog w)"

definition select_not_like :: "string \<Rightarrow> world \<Rightarrow> string list" where
  "select_not_like prefix w = filter (\<lambda>name. \<not> has_prefix prefix name) (catalog w)"

definition log_Printf :: "log_entry \<Rightarrow> world \<Rightarrow> world" where
  "log_Printf l w = w\<lparr>trace := trace w @ [Logged l]\<rparr>"

definition sent :: "query \<Rightarrow> world \<Rightarrow> world" where
  "sent q w = w\<lparr>trace := trace w @ [Queried q]\<rparr>"

subsection \<open>\<open>deleteOldBackups\<close>\<close>

text \<open>
  \<open>-retentionDays\<close> on a Go \<open>int\<close> (64 bits): the least value is its own negation.
\<close>

definition go_neg :: "int \<Rightarrow> int" where
  "go_neg k = (if k = - (2 ^ 63) then k else - k)"

text \<open>
  The offsets for which \<open>AddDate\<close> is the calendar: within 32 bits the negation does
  not wrap (whatever the size of \<open>int\<close>) and the library's count of seconds does not
  overflow.
\<close>

definition day_range :: "int \<Rightarrow> bool" where
  "day_range k = (- (2 ^ 31) < k \<and> k < 2 ^ 31)"

text \<open>\<open>t.AddDate(0, 0, k)\<close> for \<open>t\<close> of date \<open>d\<close>, as a date of the local time zone.\<close>

definition AddDate :: "env \<Rightarrow> date \<Rightarrow> int \<Rightarrow> date" where
  "AddDate E d k = (if day_range k then wall_date E (add_days d k) else overflow_date E k)"

text \<open>Lines 133 and 134: \<open>time.Now().AddDate(0, 0, -retentionDays).Format("20060102")\<close>.\<close>

definition threshold_of :: "env \<Rightarrow> int \<Rightarrow> string" where
  "threshold_of E retentionDays = format_date (AddDate E (sweep_now E) (go_neg retentionDays))"

text \<open>The loop over \<open>rows\<close>, lines 148 to 161; the third argument is \<open>tablesToDelete\<close>.\<close>

fun collectOld :: "string \<Rightarrow> (db_error + string) list \<Rightarrow> string list \<Rightarrow> db_error + string list" where
  "collectOld threshold [] tablesToDelete = Inr tablesToDelete"
| "collectOld threshold (Inl e # rows) tablesToDelete = Inl e"
| "collectOld threshold (Inr tableName # rows) tablesToDelete =
     collectOld threshold rows
       (if 8 \<le> length tableName then
          (let datePart = drop (length tableName - 8) tableName
           in if datePart < threshold then tablesToDelete @ [tableName] else tablesToDelete)
        else tablesToDelete)"

text \<open>Lines 137 to 145: the query of the sweep and what it gives the rows loop.\<close>

definition sweepRows :: "env \<Rightarrow> string \<Rightarrow> world \<Rightarrow> db_error + (db_error + string) list" where
  "sweepRows E prefix w = db_Query (like_fault E) (select_like prefix w)"

text \<open>Lines 133 to 161: the query and the list it leaves in \<open>tablesToDelete\<close>.\<close>

definition tablesToDelete :: "env \<Rightarrow> string \<Rightarrow> int \<Rightarrow> world \<Rightarrow> db_error + string list" where
  "tablesToDelete E prefix retentionDays w =
     (let threshold = threshold_of E retentionDays
      in case sweepRows E prefix w of
           Inl e \<Rightarrow> Inl e
         | Inr rows \<Rightarrow> collectOld threshold rows [])"

text \<open>The loop over \<open>tablesToDelete\<close>, lines 164 to 173.\<close>

fun dropLoop :: "env \<Rightarrow> bool \<Rightarrow> string list \<Rightarrow> world \<Rightarrow> world" where
  "dropLoop E realRun [] w = w"
| "dropLoop E realRun (table # rest) w =
     (if realRun then
        (case db_Exec E (DropTableIfExists table) w of
           (Some e, w') \<Rightarrow> dropLoop E realRun rest (log_Printf (LogDropFailed table e) w')
         | (None, w') \<Rightarrow> dropLoop E realRun rest (log_Printf (LogDropped table) w'))
      else dropLoop E realRun rest (log_Printf (LogDropped table) w))"

definition deleteOldBackups :: "env \<Rightarrow> string \<Rightarrow> int \<Rightarrow> bool \<Rightarrow> world \<Rightarrow> db_error option \<times> world" where
  "deleteOldBackups E prefix retentionDays realRun w =
     (case tablesToDelete E prefix retentionDays w of
        Inl e \<Rightarrow> (Some e, sent (SelectLike prefix) w)
      | Inr tables \<Rightarrow> (None, dropLoop E realRun tables (sent (SelectLike prefix) w)))"

subsection \<open>\<open>getTablesToBackup\<close>, \<open>createBackupTable\<close> and \<open>performBackup\<close>\<close>

fun collectTables :: "(db_error + string) list \<Rightarrow> string list \<Rightarrow> db_error + string list" where
  "collectTables [] tables = Inr tables"
| "collectTables (Inl e # rows) tables = Inl e"
| "collectTables (Inr tableName # rows) tables = collectTables rows (tables @ [tableName])"

definition getTablesToBackup :: "env \<Rightarrow> string \<Rightarrow> world \<Rightarrow> (db_error + string list) \<times> world" where
  "getTablesToBackup E prefix w =
     (case db_Query (notlike_fault E) (select_not_like prefix w) of
        Inl e \<Rightarrow> (Inl e, sent (SelectNotLike prefix) w)
      | Inr rows \<Rightarrow> (collectTables rows [], sent (SelectNotLike prefix) w))"

definition createBackupTable :: "env \<Rightarrow> string \<Rightarrow> string \<Rightarrow> world \<Rightarrow> db_error option \<times> world" where
  "createBackupTable E originalTable backupTable w = db_Exec E (CreateTableAs backupTable originalTable) w"

text \<open>\<open>fmt.Sprintf("%s_%s_%s", prefix, table, currentDate)\<close>.\<close>

definition backupTableName :: "string \<Rightarrow> string \<Rightarrow> string \<Rightarrow> string" where
  "backupTableName prefix table currentDate = prefix @ ''_'' @ table @ ''_'' @ currentDate"

text \<open>The loop over \<open>tables\<close>, lines 116 to 126; \<open>currentDate\<close> was computed before it.\<close>

fun createLoop :: "env \<Rightarrow> string \<Rightarrow> bool \<Rightarrow> string \<Rightarrow> string list \<Rightarrow> world \<Rightarrow> world" where
  "createLoop E prefix realRun currentDate [] w = w"
| "createLoop E prefix realRun currentDate (table # rest) w =
     (if realRun then
        (case createBackupTable E table (backupTableName prefix table currentDate) w of
           (Some e, w') \<Rightarrow>
             createLoop E prefix realRun currentDate rest (log_Printf (LogCreateFailed table e) w')
         | (None, w') \<Rightarrow>
             createLoop E prefix realRun currentDate rest
               (log_Printf (LogCreated table (backupTableName prefix table currentDate)) w'))
      else
        createLoop E prefix realRun currentDate rest
          (log_Printf (LogCreated table (backupTableName prefix table currentDate)) w))"

text \<open>The two errors \<open>performBackup\<close> returns, each wrapping the error of the query.\<close>

datatype run_error =
    DeleteOldBackupsError db_error
  | GetTablesError db_error

definition performBackup :: "env \<Rightarrow> string \<Rightarrow> int \<Rightarrow> bool \<Rightarrow> world \<Rightarrow> run_error option \<times> world" where
  "performBackup E prefix retentionDays realRun w =
     (case deleteOldBackups E prefix retentionDays realRun w of
        (Some e, w1) \<Rightarrow> (Some (DeleteOldBackupsError e), w1)
      | (None, w1) \<Rightarrow>
          (case getTablesToBackup E prefix w1 of
             (Inl e, w2) \<Rightarrow> (Some (GetTablesError e), w2)
           | (Inr tables, w2) \<Rightarrow>
               (let currentDate = format_date (snapshot_now E)
                in (None, createLoop E prefix realRun currentDate tables w2))))"

subsection \<open>Auxiliary notions for the statements\<close>

text \<open>The calendar order of two dates.\<close>

definition date_less :: "date \<Rightarrow> date \<Rightarrow> bool" where
  "date_less a b =
     (year a < year b \<or> (year a = year b \<and> (month a < month b \<or> (month a = month b \<and> day a < day b))))"

text \<open>
  The last \<open>w\<close> decimal digits of \<open>n\<close>: what \<open>appendInt\<close> writes for a number that
  fits the width (\<open>appendInt_fixed\<close> below).
\<close>

fun fixed_digits :: "nat \<Rightarrow> nat \<Rightarrow> string" where
  "fixed_digits 0 n = []"
| "fixed_digits (Suc w) n = fixed_digits w (n div 10) @ [digit_char (n mod 10)]"

text \<open>
  The events of the two passes: the sweep sends the \<open>LIKE\<close> query, executes
  \<open>DROP\<close> and logs drops; the snapshot pass sends the \<open>NOT LIKE\<close> query, executes
  \<open>CREATE\<close> and logs backups.
\<close>

fun sweep_event :: "event \<Rightarrow> bool" where
  "sweep_event (Queried (SelectLike p)) = True"
| "sweep_event (Executed (DropTableIfExists t)) = True"
| "sweep_event (Logged (LogDropped t)) = True"
| "sweep_event (Logged (LogDropFailed t e)) = True"
| "sweep_event ev = False"

fun snapshot_event :: "event \<Rightarrow> bool" where
  "snapshot_event (Queried (SelectNotLike p)) = True"
| "snapshot_event (Executed (CreateTableAs b t)) = True"
| "snapshot_event (Logged (LogCreated t b)) = True"
| "snapshot_event (Logged (LogCreateFailed t e)) = True"
| "snapshot_event ev = False"

section \<open>Properties\<close>

subsection \<open>The threshold\<close>

text \<open>
  For a retention within \<open>day_range\<close>, and a threshold date whose wall-clock time the
  time zone does not skip, the threshold is the calendar date \<open>retentionDays\<close> days
  before the clock's.
\<close>

lemma threshold_of_calendar:
  assumes "day_range retentionDays"
    and "wall_date E (add_days (sweep_now E) (- retentionDays)) = add_days (sweep_now E) (- retentionDays)"
  shows "threshold_of E retentionDays = format_date (add_days (sweep_now E) (- retentionDays))"
proof -
  have "go_neg retentionDays = - retentionDays"
    using assms(1) by (simp add: go_neg_def day_range_def)
  moreover have "day_range (- retentionDays)"
    using assms(1) by (simp add: day_range_def)
  ultimately show ?thesis
    using assms(2) by (simp add: threshold_of_def AddDate_def)
qed

lemma threshold_of_exec_fault:
  "threshold_of (E\<lparr>exec_fault := f\<rparr>) retentionDays = threshold_of E retentionDays"
  by (simp add: threshold_of_def AddDate_def)

subsection \<open>The rows loops and the \<open>LIKE\<close> filter\<close>

lemma collectOld_rows:
  "collectOld threshold (map Inr names) acc =
     Inr (acc @ filter (\<lambda>n. 8 \<le> length n \<and> drop (length n - 8) n < threshold) names)"
  by (induction names arbitrary: acc) (simp_all add: Let_def)





subsection \<open>The retention rule\<close>




text \<open>
  What reaches \<open>tablesToDelete\<close>, whatever happens to the query: only rows of the
  prefix query with at least 8 bytes whose last 8 bytes are below the threshold.
\<close>

lemma collectOld_sound:
  "collectOld threshold rows acc = Inr tables \<Longrightarrow> name \<in> set tables \<Longrightarrow>
     name \<in> set acc \<or>
     (Inr name \<in> set rows \<and> 8 \<le> length name \<and> drop (length name - 8) name < threshold)"
proof (induction threshold rows acc rule: collectOld.induct)
  case (1 threshold tablesToDelete)
  then show ?case by simp
next
  case (2 threshold e rows tablesToDelete)
  then show ?case by simp
next
  case (3 threshold tableName rows tablesToDelete)
  then show ?case by (auto simp: Let_def split: if_splits)
qed

lemma db_Query_rows:
  "db_Query fault names = Inr rows \<Longrightarrow> Inr name \<in> set rows \<Longrightarrow> name \<in> set names"
  by (cases fault) (auto dest: in_set_takeD split: if_splits)

lemma tablesToDelete_sound:
  assumes "tablesToDelete E prefix retentionDays w = Inr tables" and "name \<in> set tables"
  shows "name \<in> set (catalog w) \<and> has_prefix prefix name \<and> 8 \<le> length name \<and>
         drop (length name - 8) name < threshold_of E retentionDays"
proof -
  obtain rows where q: "db_Query (like_fault E) (select_like prefix w) = Inr rows"
    and c: "collectOld (threshold_of E retentionDays) rows [] = Inr tables"
    using assms(1) by (auto simp: tablesToDelete_def sweepRows_def Let_def split: sum.splits)
  from collectOld_sound [OF c assms(2)]
  have r: "Inr name \<in> set rows" and l: "8 \<le> length name"
    and d: "drop (length name - 8) name < threshold_of E retentionDays"
    by simp_all
  from db_Query_rows [OF q r] have "name \<in> set (catalog w) \<and> has_prefix prefix name"
    by (simp add: select_like_def)
  then show ?thesis using l d by simp
qed

text \<open>
  Claim C8. The comparison is strict: a table whose last 8 bytes equal the threshold
  string (a backup exactly \<open>retentionDays\<close> old) is not on \<open>tablesToDelete\<close>, and
  every table on it has its last 8 bytes strictly below the threshold.
\<close>

theorem retention_boundary_strict:
  assumes "tablesToDelete E prefix retentionDays w = Inr tables"
  shows "(drop (length name - 8) name = threshold_of E retentionDays \<longrightarrow> name \<notin> set tables)
       \<and> (name \<in> set tables \<longrightarrow> drop (length name - 8) name < threshold_of E retentionDays)"
  using tablesToDelete_sound [OF assms, of name] by auto

theorem retention_boundary_strict_witness:
  "tablesToDelete \<lparr>sweep_now = Date 2023 5 15, snapshot_now = Date 2023 5 15, wall_date = (\<lambda>d. d),
         overflow_date = (\<lambda>k. Date 2000 2 2), like_fault = NoFault,
       notlike_fault = NoFault, exec_fault = (\<lambda>n s. None)\<rparr> ''autobackup'' 14
     \<lparr>catalog = [''autobackup_foo_20230430'', ''autobackup_foo_20230501''], trace = []\<rparr>
     = Inr [''autobackup_foo_20230430'']
   \<and> drop (length ''autobackup_foo_20230501'' - 8) ''autobackup_foo_20230501''
       = threshold_of \<lparr>sweep_now = Date 2023 5 15, snapshot_now = Date 2023 5 15, wall_date = (\<lambda>d. d),
         overflow_date = (\<lambda>k. Date 2000 2 2), like_fault = NoFault,
         notlike_fault = NoFault, exec_fault = (\<lambda>n s. None)\<rparr> 14
   \<and> ''autobackup_foo_20230501'' \<notin> set [''autobackup_foo_20230430'']
   \<and> drop (length ''autobackup_foo_20230430'' - 8) ''autobackup_foo_20230430''
       < threshold_of \<lparr>sweep_now = Date 2023 5 15, snapshot_now = Date 2023 5 15, wall_date = (\<lambda>d. d),
         overflow_date = (\<lambda>k. Date 2000 2 2), like_fault = NoFault,
         notlike_fault = NoFault, exec_fault = (\<lambda>n s. None)\<rparr> 14"
proof -
  let ?E = "\<lparr>sweep_now = Date 2023 5 15, snapshot_now = Date 2023 5 15, wall_date = (\<lambda>d. d),
         overflow_date = (\<lambda>k. Date 2000 2 2), like_fault = NoFault,
       notlike_fault = NoFault, exec_fault = (\<lambda>n s. None)\<rparr>"
  let ?w = "\<lparr>catalog = [''autobackup_foo_20230430'', ''autobackup_foo_20230501''], trace = []\<rparr>"
  have "format_date (add_days (Date 2023 5 15) (- 14)) = ''20230501''" by code_simp
  then have th: "threshold_of ?E 14 = ''20230501''"
    by (simp add: threshold_of_calendar day_range_def)
  have t: "tablesToDelete ?E ''autobackup'' 14 ?w = Inr [''autobackup_foo_20230430'']"
    by (simp add: tablesToDelete_def sweepRows_def select_like_def th has_prefix_def)
  from retention_boundary_strict [OF t, of "''autobackup_foo_20230501''"]
    retention_boundary_strict [OF t, of "''autobackup_foo_20230430''"]
  show ?thesis using t th by simp
qed

text \<open>
  Claim C6, as stated, fails. The only length test of the loop is \<open>len(tableName) >= 8\<close>;
  the length of the prefix plays no part. With prefix \<open>v1_backup\<close> a table named
  \<open>v1_backup\<close> (the prefix itself, 9 bytes, fewer than 9 + 8) has the window
  \<open>1_backup\<close>, which is below \<open>20230501\<close>, and is marked.
\<close>

theorem short_name_counterexample:
  "has_prefix ''v1_backup'' ''v1_backup''
   \<and> length ''v1_backup'' < length ''v1_backup'' + 8
   \<and> tablesToDelete \<lparr>sweep_now = Date 2023 5 15, snapshot_now = Date 2023 5 15, wall_date = (\<lambda>d. d),
         overflow_date = (\<lambda>k. Date 2000 2 2), like_fault = NoFault,
       notlike_fault = NoFault, exec_fault = (\<lambda>n s. None)\<rparr> ''v1_backup'' 14
       \<lparr>catalog = [''v1_backup'', ''users''], trace = []\<rparr> = Inr [''v1_backup'']"
proof -
  let ?E = "\<lparr>sweep_now = Date 2023 5 15, snapshot_now = Date 2023 5 15, wall_date = (\<lambda>d. d),
         overflow_date = (\<lambda>k. Date 2000 2 2), like_fault = NoFault,
         notlike_fault = NoFault, exec_fault = (\<lambda>n s. None)\<rparr>"
  have "format_date (add_days (Date 2023 5 15) (- 14)) = ''20230501''" by code_simp
  then have th: "threshold_of ?E 14 = ''20230501''"
    by (simp add: threshold_of_calendar day_range_def)
  show ?thesis by (simp add: tablesToDelete_def sweepRows_def select_like_def th has_prefix_def)
qed

text \<open>
  Claim C6, amended. A table whose name has fewer than 8 bytes is never on
  \<open>tablesToDelete\<close>, whatever the threshold. A table of the prefix query with 8 bytes
  or more is on it exactly when its last 8 bytes are below the threshold, also when its
  name is shorter than the prefix plus 8 bytes.
\<close>

theorem short_names_never_marked:
  assumes "tablesToDelete E prefix retentionDays w = Inr tables"
  shows "(length name < 8 \<longrightarrow> name \<notin> set tables)
       \<and> (like_fault E = NoFault \<and> name \<in> set (catalog w) \<and> has_prefix prefix name \<and> 8 \<le> length name \<longrightarrow>
            (name \<in> set tables \<longleftrightarrow>
               drop (length name - 8) name < threshold_of E retentionDays))"
proof -
  have "length name < 8 \<longrightarrow> name \<notin> set tables"
    using tablesToDelete_sound [OF assms, of name] by auto
  moreover have "like_fault E = NoFault \<Longrightarrow>
     tables = filter (\<lambda>n. 8 \<le> length n \<and> drop (length n - 8) n < threshold_of E retentionDays)
                 (filter (has_prefix prefix) (catalog w))"
    using assms by (simp add: tablesToDelete_def sweepRows_def select_like_def collectOld_rows)
  ultimately show ?thesis by auto
qed

theorem short_names_never_marked_witness:
  "tablesToDelete \<lparr>sweep_now = Date 2023 5 15, snapshot_now = Date 2023 5 15, wall_date = (\<lambda>d. d),
         overflow_date = (\<lambda>k. Date 2000 2 2), like_fault = NoFault,
       notlike_fault = NoFault, exec_fault = (\<lambda>n s. None)\<rparr> ''bk''  14
       \<lparr>catalog = [''bk_0101'', ''bk_a_20230101''], trace = []\<rparr> = Inr [''bk_a_20230101'']
   \<and> length ''bk_0101'' < 8 \<and> ''bk_0101'' \<notin> set [''bk_a_20230101'']"
proof -
  let ?E = "\<lparr>sweep_now = Date 2023 5 15, snapshot_now = Date 2023 5 15, wall_date = (\<lambda>d. d),
         overflow_date = (\<lambda>k. Date 2000 2 2), like_fault = NoFault,
       notlike_fault = NoFault, exec_fault = (\<lambda>n s. None)\<rparr>"
  let ?w = "\<lparr>catalog = [''bk_0101'', ''bk_a_20230101''], trace = []\<rparr>"
  have "format_date (add_days (Date 2023 5 15) (- 14)) = ''20230501''" by code_simp
  then have th: "threshold_of ?E 14 = ''20230501''"
    by (simp add: threshold_of_calendar day_range_def)
  have t: "tablesToDelete ?E ''bk'' 14 ?w = Inr [''bk_a_20230101'']"
    by (simp add: tablesToDelete_def sweepRows_def select_like_def th has_prefix_def)
  from short_names_never_marked [OF t, of "''bk_0101''"]
  show ?thesis using t by simp
qed

subsection \<open>Dates and their \<open>YYYYMMDD\<close> form\<close>

text \<open>
  For years 0 to 9999 \<open>Format("20060102")\<close> yields 8 digits, and the bytewise order
  of the strings is the calendar order of the dates. Beyond 9999 the year takes five
  digits and the string order no longer follows the calendar.
\<close>

lemma digit_char_less: "i < 10 \<Longrightarrow> j < 10 \<Longrightarrow> i < j \<Longrightarrow> digit_char i < digit_char j"
  by (simp add: digit_char_def less_char_def)

lemma list_less_append_same: "(u::string) < v \<Longrightarrow> xs @ u < xs @ v"
  by (induction xs) simp_all

lemma list_less_append_block:
  "length xs = length ys \<Longrightarrow> (xs::string) < ys \<Longrightarrow> xs @ u < ys @ v"
proof (induction xs arbitrary: ys)
  case Nil
  then show ?case by simp
next
  case (Cons x xs)
  then obtain y ys' where ys: "ys = y # ys'" by (cases ys) auto
  with Cons show ?case by auto
qed

lemma length_fixed_digits: "length (fixed_digits w n) = w"
  by (induction w arbitrary: n) simp_all

lemma divmod_split:
  assumes "(a::nat) < b"
  shows "a div 10 < b div 10 \<or> (a div 10 = b div 10 \<and> a mod 10 < b mod 10)"
proof (cases "a div 10 = b div 10")
  case True
  have "10 * (a div 10) + a mod 10 = a" by (rule mult_div_mod_eq)
  then have "10 * (b div 10) + a mod 10 = a" using True by simp
  moreover have "10 * (b div 10) + b mod 10 = b" by (rule mult_div_mod_eq)
  ultimately have "a mod 10 < b mod 10" using assms by linarith
  then show ?thesis using True by simp
next
  case False
  moreover have "a div 10 \<le> b div 10" using assms by (simp add: div_le_mono)
  ultimately show ?thesis by simp
qed

lemma fixed_digits_mono: "a < b \<Longrightarrow> b < 10 ^ w \<Longrightarrow> fixed_digits w a < fixed_digits w b"
proof (induction w arbitrary: a b)
  case 0
  then show ?case by simp
next
  case (Suc w)
  have bd: "b div 10 < 10 ^ w" using Suc.prems(2) by (simp add: less_mult_imp_div_less)
  consider "a div 10 < b div 10" | "a div 10 = b div 10" "a mod 10 < b mod 10"
    using divmod_split [OF Suc.prems(1)] by blast
  then show ?case
  proof cases
    case 1
    then have "fixed_digits w (a div 10) < fixed_digits w (b div 10)" using bd by (rule Suc.IH)
    then show ?thesis by (simp add: list_less_append_block length_fixed_digits)
  next
    case 2
    have "[digit_char (a mod 10)] < [digit_char (b mod 10)]"
      using 2(2) by (simp add: digit_char_less)
    then show ?thesis using 2(1) by (simp add: list_less_append_same)
  qed
qed

lemma digit_char_zero: "digit_char 0 = CHR ''0''"
  by code_simp

lemma fixed_digits_zero: "fixed_digits w 0 = replicate w (CHR ''0'')"
  by (induction w) (simp_all add: digit_char_zero replicate_append_same)

lemma dec_digits_fixed:
  "0 < w \<Longrightarrow> n < 10 ^ w \<Longrightarrow>
     replicate (w - length (dec_digits n)) (CHR ''0'') @ dec_digits n = fixed_digits w n"
proof (induction w arbitrary: n)
  case 0
  then show ?case by simp
next
  case (Suc w)
  show ?case
  proof (cases "n < 10")
    case True
    then show ?thesis by (simp add: dec_digits.simps [of n] fixed_digits_zero)
  next
    case False
    then have w: "0 < w" using Suc.prems(2) by (cases w) auto
    have nd: "n div 10 < 10 ^ w" using Suc.prems(2) by (simp add: less_mult_imp_div_less)
    have "replicate (w - length (dec_digits (n div 10))) (CHR ''0'') @ dec_digits (n div 10)
            = fixed_digits w (n div 10)" using w nd by (rule Suc.IH)
    then show ?thesis using False by (simp add: dec_digits.simps [of n])
  qed
qed

lemma appendInt_fixed:
  "0 \<le> x \<Longrightarrow> nat x < 10 ^ w \<Longrightarrow> 0 < w \<Longrightarrow> appendInt x w = fixed_digits w (nat x)"
  by (simp add: appendInt_def Let_def dec_digits_fixed)


lemma days_in_bounds: "28 \<le> days_in y m \<and> days_in y m \<le> 31"
  by (simp add: days_in_def)

lemma next_day_valid: "valid_date d \<Longrightarrow> valid_date (next_day d)"
  using days_in_bounds [of "year d" "month d + 1"] days_in_bounds [of "year d + 1" 1]
  by (auto simp: valid_date_def next_day_def)

lemma next_day_later: "date_less d (next_day d)"
  by (simp add: date_less_def next_day_def)

lemma date_less_trans: "date_less a b \<Longrightarrow> date_less b c \<Longrightarrow> date_less a c"
  by (auto simp: date_less_def)

lemma days_after_valid: "valid_date d \<Longrightarrow> valid_date (days_after n d)"
  by (induction n arbitrary: d) (simp_all add: next_day_valid)

lemma days_after_later: "date_less d (days_after (Suc n) d)"
proof (induction n arbitrary: d)
  case 0
  show ?case by (simp add: next_day_later)
next
  case (Suc n)
  have "date_less d (next_day d)" by (rule next_day_later)
  moreover have "date_less (next_day d) (days_after (Suc n) (next_day d))" by (rule Suc.IH)
  ultimately show ?case by (simp add: date_less_trans)
qed

lemma format_date_fixed:
  assumes "valid_date d" and "0 \<le> year d" and "year d \<le> 9999"
  shows "format_date d =
           fixed_digits 4 (nat (year d)) @ fixed_digits 2 (month d) @ fixed_digits 2 (day d)"
proof -
  have m: "month d < 10 ^ 2" using assms(1) by (simp add: valid_date_def)
  have "day d \<le> 31" using assms(1) days_in_bounds [of "year d" "month d"]
    by (simp add: valid_date_def)
  then have dd: "day d < 10 ^ 2" by simp
  have y: "nat (year d) < 10 ^ 4" using assms(2,3) by simp
  show ?thesis
    using y m dd assms(2) by (simp add: format_date_def appendInt_fixed)
qed

lemma format_date_mono:
  assumes "valid_date a" and "valid_date b" and "0 \<le> year a" and "year b \<le> 9999"
    and "date_less a b"
  shows "format_date a < format_date b"
proof -
  have ya: "year a \<le> 9999" and yb: "0 \<le> year b"
    using assms(3,4,5) by (auto simp: date_less_def)
  have mb: "month b < 10 ^ 2" using assms(2) by (simp add: valid_date_def)
  have "day b \<le> 31" using assms(2) days_in_bounds [of "year b" "month b"]
    by (simp add: valid_date_def)
  then have db: "day b < 10 ^ 2" by simp
  have yb4: "nat (year b) < 10 ^ 4" using assms(4) yb by simp
  let ?Y = "\<lambda>d. fixed_digits 4 (nat (year d))"
  let ?M = "\<lambda>d. fixed_digits 2 (month d)"
  let ?D = "\<lambda>d. fixed_digits 2 (day d)"
  have "?Y a @ ?M a @ ?D a < ?Y b @ ?M b @ ?D b"
  proof -
    consider "year a < year b"
      | "year a = year b" "month a < month b"
      | "year a = year b" "month a = month b" "day a < day b"
      using assms(5) by (auto simp: date_less_def)
    then show ?thesis
    proof cases
      case 1
      then have "nat (year a) < nat (year b)" using assms(3) by simp
      then have "?Y a < ?Y b" using yb4 by (rule fixed_digits_mono)
      then show ?thesis by (simp only: list_less_append_block length_fixed_digits)
    next
      case 2
      have "?M a < ?M b" using 2(2) mb by (rule fixed_digits_mono)
      then have "?M a @ ?D a < ?M b @ ?D b"
        by (simp only: list_less_append_block length_fixed_digits)
      then show ?thesis using 2(1) by (simp only: list_less_append_same)
    next
      case 3
      have "?D a < ?D b" using 3(3) db by (rule fixed_digits_mono)
      then show ?thesis using 3(1,2) by (simp only: list_less_append_same)
    qed
  qed
  then show ?thesis
    using assms(1,2,3,4) ya yb by (simp only: format_date_fixed)
qed

lemma length_format_date:
  assumes "valid_date d" and "0 \<le> year d" and "year d \<le> 9999"
  shows "length (format_date d) = 8"
  using assms by (simp add: format_date_fixed length_fixed_digits)

lemma appendInt_length: "w \<le> length (appendInt x w)"
  by (simp add: appendInt_def Let_def)

lemma appendInt_length_negative: "x < 0 \<Longrightarrow> Suc w \<le> length (appendInt x w)"
  by (simp add: appendInt_def Let_def)

lemma format_date_negative_year:
  assumes "year d < 0"
  shows "9 \<le> length (format_date d)"
proof -
  have "5 \<le> length (appendInt (year d) 4)"
    using appendInt_length_negative [OF assms, of 4] by simp
  moreover have "2 \<le> length (appendInt (int (month d)) 2)" by (rule appendInt_length)
  moreover have "2 \<le> length (appendInt (int (day d)) 2)" by (rule appendInt_length)
  ultimately show ?thesis by (simp add: format_date_def)
qed

subsection \<open>A negative retention\<close>

text \<open>
  Claim C9, as stated, fails once the threshold date passes the year 9999: the year is
  then written with five digits and the string is below every eight-digit date. With the
  clock at 9999-12-31 and a retention of -1 the threshold is \<open>100000101\<close>, and the
  backup \<open>autobackup_users_99991231\<close>, made the same day, is not marked.
\<close>

theorem negative_retention_counterexample:
  "(- 1 :: int) < 0
   \<and> has_prefix ''autobackup'' ''autobackup_users_99991231''
   \<and> drop (length ''autobackup_users_99991231'' - 8) ''autobackup_users_99991231''
       = format_date (sweep_now \<lparr>sweep_now = Date 9999 12 31, snapshot_now = Date 9999 12 31,
           wall_date = (\<lambda>d. d), overflow_date = (\<lambda>k. Date 9999 12 31), like_fault = NoFault,
           notlike_fault = NoFault, exec_fault = (\<lambda>n s. None)\<rparr>)
   \<and> threshold_of \<lparr>sweep_now = Date 9999 12 31, snapshot_now = Date 9999 12 31,
           wall_date = (\<lambda>d. d), overflow_date = (\<lambda>k. Date 9999 12 31), like_fault = NoFault,
           notlike_fault = NoFault, exec_fault = (\<lambda>n s. None)\<rparr> (- 1) = ''100000101''
   \<and> tablesToDelete \<lparr>sweep_now = Date 9999 12 31, snapshot_now = Date 9999 12 31,
           wall_date = (\<lambda>d. d), overflow_date = (\<lambda>k. Date 9999 12 31), like_fault = NoFault,
           notlike_fault = NoFault, exec_fault = (\<lambda>n s. None)\<rparr> ''autobackup'' (- 1)
         \<lparr>catalog = [''users'', ''autobackup_users_99991231''], trace = []\<rparr>
       = Inr []"
proof -
  let ?E = "\<lparr>sweep_now = Date 9999 12 31, snapshot_now = Date 9999 12 31,
           wall_date = (\<lambda>d. d), overflow_date = (\<lambda>k. Date 9999 12 31), like_fault = NoFault,
           notlike_fault = NoFault, exec_fault = (\<lambda>n s. None)\<rparr>"
  have a: "add_days (Date 9999 12 31) 1 = Date 10000 1 1"
    by (simp add: add_days_def next_day_def days_in_def)
  have dc: "digit_char 0 = CHR ''0''" "digit_char (Suc 0) = CHR ''1''" "digit_char 1 = CHR ''1''"
    "digit_char 2 = CHR ''2''" "digit_char 3 = CHR ''3''" "digit_char 9 = CHR ''9''"
    by code_simp+
  have d0: "dec_digits 10000 = ''10000''"
    by (simp add: dec_digits.simps dc)
  have d1: "dec_digits (Suc 0) = ''1''" "dec_digits 1 = ''1''" "dec_digits 9999 = ''9999''"
    "dec_digits 12 = ''12''" "dec_digits 31 = ''31''"
    by (simp_all add: dec_digits.simps dc)
  have "format_date (Date 10000 1 1) = ''100000101''"
    by (simp add: format_date_def appendInt_def d0 d1 Let_def numeral_2_eq_2)
  then have t: "threshold_of ?E (- 1) = ''100000101''"
    by (simp add: threshold_of_calendar day_range_def a)
  have f: "format_date (Date 9999 12 31) = ''99991231''"
    by (simp add: format_date_def appendInt_def d1 Let_def numeral_2_eq_2)
  show ?thesis
    by (simp add: tablesToDelete_def sweepRows_def select_like_def t f has_prefix_def)
qed

text \<open>
  Claim C9, amended. \<open>retentionDays\<close> is used as it comes, with no test of its sign.
  When it is negative, within the range where neither its negation nor the date
  arithmetic of the library overflows, and the time zone has the wall-clock time on the
  threshold date, that date lies after the date of the clock. When moreover its year is
  at most 9999, so that it is still written \<open>YYYYMMDD\<close>, its string is above today's
  and every table of the prefix query whose last 8 bytes are today's date is put on
  \<open>tablesToDelete\<close>, a backup made earlier the same day included (for a sweep whose
  enumeration delivers its rows).
\<close>

theorem negative_retention_marks_today:
  assumes "retentionDays < 0"
    and "day_range retentionDays"
    and "valid_date (sweep_now E)"
    and "wall_date E (add_days (sweep_now E) (- retentionDays)) = add_days (sweep_now E) (- retentionDays)"
    and "year (add_days (sweep_now E) (- retentionDays)) \<le> 9999"
    and "like_fault E = NoFault"
    and "name \<in> set (catalog w)"
    and "has_prefix prefix name"
    and "8 \<le> length name"
    and "drop (length name - 8) name = format_date (sweep_now E)"
  shows "date_less (sweep_now E) (AddDate E (sweep_now E) (go_neg retentionDays))
       \<and> format_date (sweep_now E) < threshold_of E retentionDays
       \<and> (\<exists>tables. tablesToDelete E prefix retentionDays w = Inr tables \<and> name \<in> set tables)"
proof -
  let ?now = "sweep_now E"
  let ?then = "add_days ?now (- retentionDays)"
  have th: "threshold_of E retentionDays = format_date ?then"
    using assms(2,4) by (rule threshold_of_calendar)
  have ad: "AddDate E ?now (go_neg retentionDays) = ?then"
    using assms(2,4) by (simp add: AddDate_def go_neg_def day_range_def)
  have "length (format_date ?now) = 8" using assms(9,10) by (metis length_drop diff_diff_cancel)
  then have y0: "0 \<le> year ?now"
    using format_date_negative_year [of ?now] by (cases "year ?now < 0") simp_all
  obtain n where n: "nat (- retentionDays) = Suc n"
    using assms(1) by (cases "nat (- retentionDays)") auto
  have later: "?then = days_after (Suc n) ?now"
    using assms(1) n by (simp add: add_days_def)
  have dl: "date_less ?now ?then"
    unfolding later by (rule days_after_later)
  have vt: "valid_date ?then"
    unfolding later using assms(3) by (rule days_after_valid)
  have lt: "format_date ?now < threshold_of E retentionDays"
    unfolding th using assms(3) vt y0 assms(5) dl by (rule format_date_mono)
  have "tablesToDelete E prefix retentionDays w =
          Inr (filter (\<lambda>n. 8 \<le> length n \<and> drop (length n - 8) n < threshold_of E retentionDays)
                 (filter (has_prefix prefix) (catalog w)))"
    using assms(6) by (simp add: tablesToDelete_def sweepRows_def select_like_def collectOld_rows)
  moreover have "drop (length name - 8) name < threshold_of E retentionDays"
    using lt assms(10) by simp
  ultimately have "\<exists>tables. tablesToDelete E prefix retentionDays w = Inr tables \<and> name \<in> set tables"
    using assms(7,8,9) by simp
  then show ?thesis using dl lt ad by simp
qed

theorem negative_retention_marks_today_witness:
  "threshold_of \<lparr>sweep_now = Date 2023 5 15, snapshot_now = Date 2023 5 15, wall_date = (\<lambda>d. d),
         overflow_date = (\<lambda>k. Date 2000 2 2), like_fault = NoFault,
       notlike_fault = NoFault, exec_fault = (\<lambda>n s. None)\<rparr> (- 1) = ''20230516''
   \<and> tablesToDelete \<lparr>sweep_now = Date 2023 5 15, snapshot_now = Date 2023 5 15, wall_date = (\<lambda>d. d),
         overflow_date = (\<lambda>k. Date 2000 2 2), like_fault = NoFault,
       notlike_fault = NoFault, exec_fault = (\<lambda>n s. None)\<rparr> ''autobackup'' (- 1)
       \<lparr>catalog = [''users'', ''autobackup_users_20230515''], trace = []\<rparr>
     = Inr [''autobackup_users_20230515'']"
proof -
  let ?E = "\<lparr>sweep_now = Date 2023 5 15, snapshot_now = Date 2023 5 15, wall_date = (\<lambda>d. d),
         overflow_date = (\<lambda>k. Date 2000 2 2), like_fault = NoFault,
       notlike_fault = NoFault, exec_fault = (\<lambda>n s. None)\<rparr>"
  let ?w = "\<lparr>catalog = [''users'', ''autobackup_users_20230515''], trace = []\<rparr>"
  have a: "add_days (Date 2023 5 15) (- (- 1)) = Date 2023 5 16" by code_simp
  have "format_date (Date 2023 5 16) = ''20230516''" by code_simp
  then have th: "threshold_of ?E (- 1) = ''20230516''"
    using a by (simp add: threshold_of_calendar day_range_def)
  have f: "format_date (Date 2023 5 15) = ''20230515''" by code_simp
  have h1: "(- 1 :: int) < 0" by simp
  have h2: "day_range (- 1)" by (simp add: day_range_def)
  have h3: "valid_date (sweep_now ?E)" by (simp add: valid_date_def days_in_def)
  have h4: "wall_date ?E (add_days (sweep_now ?E) (- (- 1))) = add_days (sweep_now ?E) (- (- 1))"
    by simp
  have h5: "year (add_days (sweep_now ?E) (- (- 1))) \<le> 9999" using a by simp
  have h6: "like_fault ?E = NoFault" by simp
  have h7: "''autobackup_users_20230515'' \<in> set (catalog ?w)" by simp
  have h8: "has_prefix ''autobackup'' ''autobackup_users_20230515''" by (simp add: has_prefix_def)
  have h9: "8 \<le> length ''autobackup_users_20230515''" by simp
  have h10: "drop (length ''autobackup_users_20230515'' - 8) ''autobackup_users_20230515''
              = format_date (sweep_now ?E)" using f by simp
  from negative_retention_marks_today [OF h1 h2 h3 h4 h5 h6 h7 h8 h9 h10]
  obtain tables where t: "tablesToDelete ?E ''autobackup'' (- 1) ?w = Inr tables"
    and m: "''autobackup_users_20230515'' \<in> set tables" by blast
  have "tablesToDelete ?E ''autobackup'' (- 1) ?w = Inr [''autobackup_users_20230515'']"
    by (simp add: tablesToDelete_def sweepRows_def select_like_def th has_prefix_def)
  then show ?thesis using th by simp
qed

subsection \<open>The statement loops\<close>

text \<open>
  What the two loops leave in the trace and in the catalog. In a dry run they only log.
  In a real run the sweep hands one \<open>DROP\<close> per element of its list to the database,
  in the order of the list and whatever the outcome of each, and touches no table that
  is not on the list.
\<close>

lemma executed_of_append: "executed_of (a @ b) = executed_of a @ executed_of b"
  by (induction a rule: executed_of.induct) simp_all

lemma logged_of_append: "logged_of (a @ b) = logged_of a @ logged_of b"
  by (induction a rule: logged_of.induct) simp_all

lemma db_Exec_trace: "trace (snd (db_Exec E s w)) = trace w @ [Executed s]"
  by (simp add: db_Exec_def Let_def split: option.split stmt.split)

lemma filter_removeAll_other: "\<not> P t \<Longrightarrow> filter P (removeAll t xs) = filter P xs"
  by (induction xs) auto

lemma db_Exec_drop_keeps:
  "\<not> P t \<Longrightarrow> filter P (catalog (snd (db_Exec E (DropTableIfExists t) w))) = filter P (catalog w)"
  by (simp add: db_Exec_def Let_def filter_removeAll_other split: option.split)

lemma dropLoop_dry:
  "dropLoop E False tables w = w\<lparr>trace := trace w @ map (\<lambda>t. Logged (LogDropped t)) tables\<rparr>"
  by (induction tables arbitrary: w) (simp_all add: log_Printf_def)

lemma dropLoop_real_executed:
  "executed_of (trace (dropLoop E True tables w)) = executed_of (trace w) @ map DropTableIfExists tables"
proof (induction tables arbitrary: w)
  case Nil
  show ?case by simp
next
  case (Cons t tables)
  obtain r w' where x: "db_Exec E (DropTableIfExists t) w = (r, w')" by (cases "db_Exec E (DropTableIfExists t) w")
  have tr: "trace w' = trace w @ [Executed (DropTableIfExists t)]"
    using db_Exec_trace [of E "DropTableIfExists t" w] x by simp
  show ?case
    by (cases r) (simp_all add: x Cons.IH log_Printf_def tr executed_of_append)
qed

lemma dropLoop_real_keeps:
  "\<forall>t \<in> set tables. \<not> P t \<Longrightarrow>
     filter P (catalog (dropLoop E True tables w)) = filter P (catalog w)"
proof (induction tables arbitrary: w)
  case Nil
  show ?case by simp
next
  case (Cons t tables)
  obtain r w' where x: "db_Exec E (DropTableIfExists t) w = (r, w')" by (cases "db_Exec E (DropTableIfExists t) w")
  have "\<not> P t" using Cons.prems by simp
  then have k: "filter P (catalog w') = filter P (catalog w)"
    using db_Exec_drop_keeps [of P t E w] x by simp
  have rest: "\<forall>t \<in> set tables. \<not> P t" using Cons.prems by simp
  show ?case
    by (cases r) (simp_all add: x Cons.IH [OF rest] log_Printf_def k)
qed

lemma createLoop_dry:
  "createLoop E prefix False currentDate tables w =
     w\<lparr>trace := trace w @ map (\<lambda>t. Logged (LogCreated t (backupTableName prefix t currentDate))) tables\<rparr>"
  by (induction tables arbitrary: w) (simp_all add: log_Printf_def)

lemma createLoop_real_executed:
  "executed_of (trace (createLoop E prefix True currentDate tables w)) =
     executed_of (trace w) @ map (\<lambda>t. CreateTableAs (backupTableName prefix t currentDate) t) tables"
proof (induction tables arbitrary: w)
  case Nil
  show ?case by simp
next
  case (Cons t tables)
  let ?s = "CreateTableAs (backupTableName prefix t currentDate) t"
  obtain r w' where x: "db_Exec E ?s w = (r, w')" by (cases "db_Exec E ?s w")
  have tr: "trace w' = trace w @ [Executed ?s]"
    using db_Exec_trace [of E ?s w] x by simp
  show ?case
    by (cases r) (simp_all add: createBackupTable_def x Cons.IH log_Printf_def tr executed_of_append)
qed

subsection \<open>The sweep works in two phases\<close>

text \<open>
  Claim C10. \<open>tablesToDelete\<close> is complete before the first \<open>DROP\<close>: the list does
  not depend on how the database answers the statements (\<open>exec_fault\<close> is arbitrary),
  and in a real run the statements handed to the database by the sweep are exactly one
  \<open>DROP\<close> per element of the list, in the order of the list. When the enumeration
  returns an error there is no list and no statement.
\<close>

theorem two_phase_sweep:
  "tablesToDelete (E\<lparr>exec_fault := f\<rparr>) prefix retentionDays w = tablesToDelete E prefix retentionDays w
   \<and> executed_of (trace (snd (deleteOldBackups (E\<lparr>exec_fault := f\<rparr>) prefix retentionDays True w)))
       = executed_of (trace w) @
           (case tablesToDelete E prefix retentionDays w of
              Inl e \<Rightarrow> []
            | Inr tables \<Rightarrow> map DropTableIfExists tables)"
proof -
  have same: "tablesToDelete (E\<lparr>exec_fault := f\<rparr>) prefix retentionDays w = tablesToDelete E prefix retentionDays w"
    by (simp add: tablesToDelete_def sweepRows_def threshold_of_exec_fault)
  show ?thesis
  proof (cases "tablesToDelete E prefix retentionDays w")
    case (Inl e)
    then show ?thesis
      using same by (simp add: deleteOldBackups_def sent_def executed_of_append)
  next
    case (Inr tables)
    then show ?thesis
      using same
      by (simp add: deleteOldBackups_def dropLoop_real_executed sent_def executed_of_append)
  qed
qed

theorem two_phase_sweep_witness:
  "executed_of (trace (snd (deleteOldBackups
       \<lparr>sweep_now = Date 2023 5 15, snapshot_now = Date 2023 5 15, wall_date = (\<lambda>d. d),
         overflow_date = (\<lambda>k. Date 2000 2 2), like_fault = NoFault,
         notlike_fault = NoFault, exec_fault = (\<lambda>n s. Some (DbError ''permission denied''))\<rparr>
       ''autobackup'' 14 True
       \<lparr>catalog = [''autobackup_a_20230101'', ''users'', ''autobackup_b_20230102''], trace = []\<rparr>)))
   = [DropTableIfExists ''autobackup_a_20230101'', DropTableIfExists ''autobackup_b_20230102'']"
proof -
  let ?E = "\<lparr>sweep_now = Date 2023 5 15, snapshot_now = Date 2023 5 15, wall_date = (\<lambda>d. d),
         overflow_date = (\<lambda>k. Date 2000 2 2), like_fault = NoFault,
         notlike_fault = NoFault, exec_fault = (\<lambda>n s. None)\<rparr>"
  let ?f = "\<lambda>(n::nat) (s::stmt). Some (DbError ''permission denied'')"
  let ?w = "\<lparr>catalog = [''autobackup_a_20230101'', ''users'', ''autobackup_b_20230102''], trace = []\<rparr>"
  have "format_date (add_days (Date 2023 5 15) (- 14)) = ''20230501''" by code_simp
  then have th: "threshold_of ?E 14 = ''20230501''"
    by (simp add: threshold_of_calendar day_range_def)
  have t: "tablesToDelete ?E ''autobackup'' 14 ?w = Inr [''autobackup_a_20230101'', ''autobackup_b_20230102'']"
    by (simp add: tablesToDelete_def sweepRows_def select_like_def th has_prefix_def)
  from two_phase_sweep [where E = ?E and f = ?f and prefix = "''autobackup''" and retentionDays = 14 and w = ?w]
  show ?thesis using t by simp
qed

subsection \<open>The snapshot pass\<close>

lemma logged_of_map_Logged: "logged_of (map (\<lambda>t. Logged (f t)) xs) = map f xs"
  by (induction xs) simp_all

lemma executed_of_map_Logged: "executed_of (map (\<lambda>t. Logged (f t)) xs) = []"
  by (induction xs) simp_all

lemma getTablesToBackup_world: "snd (getTablesToBackup E prefix w) = sent (SelectNotLike prefix) w"
  by (simp add: getTablesToBackup_def split: sum.split)



text \<open>
  Claim C5. When the sweep has returned without error and the enumeration of the snapshot
  pass has returned \<open>tables\<close>, the pass builds for each of them, in order, the name
  \<open>prefix_table_date\<close>, where \<open>date\<close> is the one string
  \<open>time.Now().Format("20060102")\<close> computed before the loop: in a real run these are
  the \<open>CREATE TABLE ... AS SELECT * FROM table\<close> statements handed to the database,
  in a dry run the names logged. All names of one run end in the same date.
\<close>

theorem backup_names:
  assumes "deleteOldBackups E prefix retentionDays realRun w = (None, w1)"
    and "getTablesToBackup E prefix w1 = (Inr tables, w2)"
  shows "(if realRun
          then executed_of (trace (snd (performBackup E prefix retentionDays realRun w))) =
                 executed_of (trace w1) @
                 map (\<lambda>table. CreateTableAs (prefix @ ''_'' @ table @ ''_'' @ format_date (snapshot_now E)) table) tables
          else logged_of (trace (snd (performBackup E prefix retentionDays realRun w))) =
                 logged_of (trace w1) @
                 map (\<lambda>table. LogCreated table (prefix @ ''_'' @ table @ ''_'' @ format_date (snapshot_now E))) tables)"
proof -
  have w2: "w2 = sent (SelectNotLike prefix) w1"
    using getTablesToBackup_world [of E prefix w1] assms(2) by simp
  have run: "snd (performBackup E prefix retentionDays realRun w) =
               createLoop E prefix realRun (format_date (snapshot_now E)) tables w2"
    using assms by (simp add: performBackup_def Let_def)
  show ?thesis
  proof (cases realRun)
    case True
    then show ?thesis
      unfolding run
      by (simp add: createLoop_real_executed w2 sent_def executed_of_append backupTableName_def)
  next
    case False
    then show ?thesis
      unfolding run
      by (simp add: createLoop_dry w2 sent_def logged_of_append logged_of_map_Logged backupTableName_def)
  qed
qed


theorem backup_names_witness:
  "executed_of (trace (snd (performBackup
       \<lparr>sweep_now = Date 2023 5 1, snapshot_now = Date 2023 5 1, wall_date = (\<lambda>d. d),
         overflow_date = (\<lambda>k. Date 2000 2 2), like_fault = NoFault,
         notlike_fault = NoFault, exec_fault = (\<lambda>n s. None)\<rparr>
       ''autobackup'' 14 True
       \<lparr>catalog = [''users'', ''orders''], trace = []\<rparr>)))
   = [CreateTableAs ''autobackup_users_20230501'' ''users'',
      CreateTableAs ''autobackup_orders_20230501'' ''orders'']"
proof -
  let ?E = "\<lparr>sweep_now = Date 2023 5 1, snapshot_now = Date 2023 5 1, wall_date = (\<lambda>d. d),
         overflow_date = (\<lambda>k. Date 2000 2 2), like_fault = NoFault,
         notlike_fault = NoFault, exec_fault = (\<lambda>n s. None)\<rparr>"
  let ?w = "\<lparr>catalog = [''users'', ''orders''], trace = []\<rparr>"
  let ?w1 = "\<lparr>catalog = [''users'', ''orders''], trace = [Queried (SelectLike ''autobackup'')]\<rparr>"
  let ?w2 = "\<lparr>catalog = [''users'', ''orders''],
               trace = [Queried (SelectLike ''autobackup''), Queried (SelectNotLike ''autobackup'')]\<rparr>"
  have f: "format_date (Date 2023 5 1) = ''20230501''" by code_simp
  have a: "deleteOldBackups ?E ''autobackup'' 14 True ?w = (None, ?w1)"
    by (simp add: deleteOldBackups_def tablesToDelete_def sweepRows_def select_like_def has_prefix_def sent_def)
  have b: "getTablesToBackup ?E ''autobackup'' ?w1 = (Inr [''users'', ''orders''], ?w2)"
    by (simp add: getTablesToBackup_def select_not_like_def has_prefix_def sent_def)
  from backup_names [OF a b] show ?thesis using f by simp
qed

subsection \<open>Dry run and real run\<close>

lemma executed_of_map_Executed: "executed_of (map (\<lambda>t. Executed (f t)) xs) = map f xs"
  by (induction xs) simp_all

lemma getTablesToBackup_result:
  "select_not_like prefix w = select_not_like prefix v \<Longrightarrow>
     fst (getTablesToBackup E prefix w) = fst (getTablesToBackup E prefix v)"
  by (simp add: getTablesToBackup_def split: sum.split)

lemma createLoop_dry_catalog: "catalog (createLoop E prefix False currentDate tables w) = catalog w"
  by (simp add: createLoop_dry)

text \<open>
  Claim C2. Started from the same database, with the same clock and the same behaviour of
  the queries, a dry run hands no statement to the database and leaves the catalog as it
  was, and there are two lists, \<open>dels\<close> and \<open>srcs\<close>, such that the dry run logs
  exactly a drop for each element of \<open>dels\<close> and a backup \<open>prefix_t_date\<close> for each
  \<open>t\<close> of \<open>srcs\<close>, while the real run hands to the database exactly a \<open>DROP\<close> for
  each element of \<open>dels\<close> and then a \<open>CREATE\<close> of \<open>prefix_t_date\<close> from \<open>t\<close> for
  each \<open>t\<close> of \<open>srcs\<close>. Both runs return the same error or none. The real run
  enumerates its sources after the drops; the drops remove only tables of the prefix
  query, which the second query does not return.
\<close>

theorem dry_run_transparent:
  "\<exists>dels srcs.
     catalog (snd (performBackup E prefix retentionDays False w)) = catalog w
   \<and> executed_of (trace (snd (performBackup E prefix retentionDays False w))) = executed_of (trace w)
   \<and> logged_of (trace (snd (performBackup E prefix retentionDays False w))) =
       logged_of (trace w) @ map LogDropped dels @
       map (\<lambda>t. LogCreated t (backupTableName prefix t (format_date (snapshot_now E)))) srcs
   \<and> executed_of (trace (snd (performBackup E prefix retentionDays True w))) =
       executed_of (trace w) @ map DropTableIfExists dels @
       map (\<lambda>t. CreateTableAs (backupTableName prefix t (format_date (snapshot_now E))) t) srcs
   \<and> fst (performBackup E prefix retentionDays False w) = fst (performBackup E prefix retentionDays True w)"
proof (cases "tablesToDelete E prefix retentionDays w")
  case (Inl e)
  then have "performBackup E prefix retentionDays realRun w =
               (Some (DeleteOldBackupsError e), sent (SelectLike prefix) w)" for realRun
    by (simp add: performBackup_def deleteOldBackups_def)
  then show ?thesis
    by (intro exI [of _ "[]"]) (simp add: sent_def executed_of_append logged_of_append)
next
  case (Inr dels)
  let ?d = "format_date (snapshot_now E)"
  let ?w0 = "sent (SelectLike prefix) w"
  let ?dry1 = "dropLoop E False dels ?w0"
  let ?real1 = "dropLoop E True dels ?w0"
  have sweep: "deleteOldBackups E prefix retentionDays realRun w = (None, dropLoop E realRun dels ?w0)"
    for realRun
    using Inr by (simp add: deleteOldBackups_def)
  have marked: "\<forall>t \<in> set dels. \<not> \<not> has_prefix prefix t"
    using tablesToDelete_sound [OF Inr] by simp
  have cat_dry: "catalog ?dry1 = catalog w"
    by (simp add: dropLoop_dry sent_def)
  have src_dry: "select_not_like prefix ?dry1 = select_not_like prefix w"
    by (simp add: select_not_like_def cat_dry)
  have "filter (\<lambda>n. \<not> has_prefix prefix n) (catalog ?real1) = filter (\<lambda>n. \<not> has_prefix prefix n) (catalog ?w0)"
    using marked by (rule dropLoop_real_keeps)
  then have src_real: "select_not_like prefix ?real1 = select_not_like prefix w"
    by (simp add: select_not_like_def sent_def)
  have same: "fst (getTablesToBackup E prefix ?dry1) = fst (getTablesToBackup E prefix ?real1)"
    by (rule getTablesToBackup_result) (simp add: src_dry src_real)
  have ex_dry1: "executed_of (trace ?dry1) = executed_of (trace w)"
    by (simp add: dropLoop_dry sent_def executed_of_append executed_of_map_Logged)
  have lg_dry1: "logged_of (trace ?dry1) = logged_of (trace w) @ map LogDropped dels"
    by (simp add: dropLoop_dry sent_def logged_of_append logged_of_map_Logged)
  have ex_real1: "executed_of (trace ?real1) = executed_of (trace w) @ map DropTableIfExists dels"
    by (simp add: dropLoop_real_executed sent_def executed_of_append)
  show ?thesis
  proof (cases "fst (getTablesToBackup E prefix ?real1)")
    case (Inl e)
    have "performBackup E prefix retentionDays False w =
            (Some (GetTablesError e), sent (SelectNotLike prefix) ?dry1)"
      using Inl same sweep [of False] getTablesToBackup_world [of E prefix ?dry1]
      by (cases "getTablesToBackup E prefix ?dry1") (simp add: performBackup_def)
    moreover have "performBackup E prefix retentionDays True w =
            (Some (GetTablesError e), sent (SelectNotLike prefix) ?real1)"
      using Inl sweep [of True] getTablesToBackup_world [of E prefix ?real1]
      by (cases "getTablesToBackup E prefix ?real1") (simp add: performBackup_def)
    ultimately show ?thesis
      using cat_dry ex_dry1 lg_dry1 ex_real1
      by (intro exI [of _ dels] exI [of _ "[]"])
         (simp add: sent_def executed_of_append logged_of_append)
  next
    case (Inr srcs)
    have "performBackup E prefix retentionDays False w =
            (None, createLoop E prefix False ?d srcs (sent (SelectNotLike prefix) ?dry1))"
      using Inr same sweep [of False] getTablesToBackup_world [of E prefix ?dry1]
      by (cases "getTablesToBackup E prefix ?dry1") (simp add: performBackup_def)
    moreover have "performBackup E prefix retentionDays True w =
            (None, createLoop E prefix True ?d srcs (sent (SelectNotLike prefix) ?real1))"
      using Inr sweep [of True] getTablesToBackup_world [of E prefix ?real1]
      by (cases "getTablesToBackup E prefix ?real1") (simp add: performBackup_def)
    ultimately show ?thesis
      using cat_dry ex_dry1 lg_dry1 ex_real1
      by (intro exI [of _ dels] exI [of _ srcs])
         (simp add: createLoop_dry createLoop_real_executed sent_def executed_of_append
            logged_of_append executed_of_map_Logged logged_of_map_Logged)
  qed
qed


theorem dry_run_transparent_witness:
  "performBackup \<lparr>sweep_now = Date 2023 5 2, snapshot_now = Date 2023 5 2, wall_date = (\<lambda>d. d),
         overflow_date = (\<lambda>k. Date 2000 2 2), like_fault = NoFault,
         notlike_fault = NoFault, exec_fault = (\<lambda>n s. None)\<rparr> ''autobackup'' 14 False
       \<lparr>catalog = [''users'', ''orders'', ''autobackup_users_20230101''], trace = []\<rparr>
   = (None, \<lparr>catalog = [''users'', ''orders'', ''autobackup_users_20230101''],
        trace = [Queried (SelectLike ''autobackup''),
                 Logged (LogDropped ''autobackup_users_20230101''),
                 Queried (SelectNotLike ''autobackup''),
                 Logged (LogCreated ''users'' ''autobackup_users_20230502''),
                 Logged (LogCreated ''orders'' ''autobackup_orders_20230502'')]\<rparr>)
   \<and> executed_of (trace (snd (performBackup \<lparr>sweep_now = Date 2023 5 2, snapshot_now = Date 2023 5 2, wall_date = (\<lambda>d. d),
         overflow_date = (\<lambda>k. Date 2000 2 2),
         like_fault = NoFault, notlike_fault = NoFault, exec_fault = (\<lambda>n s. None)\<rparr> ''autobackup'' 14 True
       \<lparr>catalog = [''users'', ''orders'', ''autobackup_users_20230101''], trace = []\<rparr>)))
     = [DropTableIfExists ''autobackup_users_20230101'',
        CreateTableAs ''autobackup_users_20230502'' ''users'',
        CreateTableAs ''autobackup_orders_20230502'' ''orders'']"
proof -
  let ?E = "\<lparr>sweep_now = Date 2023 5 2, snapshot_now = Date 2023 5 2, wall_date = (\<lambda>d. d),
         overflow_date = (\<lambda>k. Date 2000 2 2), like_fault = NoFault,
         notlike_fault = NoFault, exec_fault = (\<lambda>n s. None)\<rparr>"
  let ?w = "\<lparr>catalog = [''users'', ''orders'', ''autobackup_users_20230101''], trace = []\<rparr>"
  have "format_date (add_days (Date 2023 5 2) (- 14)) = ''20230418''" by code_simp
  then have th: "threshold_of ?E 14 = ''20230418''"
    by (simp add: threshold_of_calendar day_range_def)
  have f: "format_date (Date 2023 5 2) = ''20230502''" by code_simp
  have t: "tablesToDelete ?E ''autobackup'' 14 ?w = Inr [''autobackup_users_20230101'']"
    by (simp add: tablesToDelete_def sweepRows_def select_like_def th has_prefix_def)
  have dry: "performBackup ?E ''autobackup'' 14 False ?w
   = (None, \<lparr>catalog = [''users'', ''orders'', ''autobackup_users_20230101''],
        trace = [Queried (SelectLike ''autobackup''),
                 Logged (LogDropped ''autobackup_users_20230101''),
                 Queried (SelectNotLike ''autobackup''),
                 Logged (LogCreated ''users'' ''autobackup_users_20230502''),
                 Logged (LogCreated ''orders'' ''autobackup_orders_20230502'')]\<rparr>)"
    by (simp add: performBackup_def deleteOldBackups_def t getTablesToBackup_def select_not_like_def
          has_prefix_def sent_def log_Printf_def f backupTableName_def Let_def)
  have real: "executed_of (trace (snd (performBackup ?E ''autobackup'' 14 True ?w)))
     = [DropTableIfExists ''autobackup_users_20230101'',
        CreateTableAs ''autobackup_users_20230502'' ''users'',
        CreateTableAs ''autobackup_orders_20230502'' ''orders'']"
    by (simp add: performBackup_def deleteOldBackups_def t getTablesToBackup_def select_not_like_def
          has_prefix_def sent_def log_Printf_def f backupTableName_def Let_def db_Exec_def
          createBackupTable_def)
  from dry_run_transparent [of ?E "''autobackup''" 14 ?w]
  obtain dels srcs where
    "logged_of (trace (snd (performBackup ?E ''autobackup'' 14 False ?w))) =
          logged_of (trace ?w) @ map LogDropped dels @
          map (\<lambda>t. LogCreated t (backupTableName ''autobackup'' t (format_date (snapshot_now ?E)))) srcs"
    and "executed_of (trace (snd (performBackup ?E ''autobackup'' 14 True ?w))) =
          executed_of (trace ?w) @ map DropTableIfExists dels @
          map (\<lambda>t. CreateTableAs (backupTableName ''autobackup'' t (format_date (snapshot_now ?E))) t) srcs"
    by blast
  then show ?thesis using dry real by simp
qed

subsection \<open>The two queries are complementary\<close>






subsection \<open>Errors and the order of the passes\<close>

text \<open>
  What holds of every run. Each loop only appends events of its own pass. An error that
  \<open>deleteOldBackups\<close> returns ends the run there. The result of the run is decided by
  the two enumerations alone: the error that \<open>db.Query\<close> or \<open>rows.Scan\<close> reports, of
  the sweep first, else none; the outcome of the statements never changes it. In the
  trace, all events of the sweep come before all events of the snapshot pass.
\<close>

lemma tablesToDelete_exec_fault:
  "tablesToDelete (E\<lparr>exec_fault := f\<rparr>) prefix retentionDays w = tablesToDelete E prefix retentionDays w"
  by (simp add: tablesToDelete_def sweepRows_def threshold_of_exec_fault)


lemma dropLoop_events:
  "\<exists>es. trace (dropLoop E realRun tables w) = trace w @ es \<and> list_all sweep_event es"
proof (induction tables arbitrary: w)
  case Nil
  show ?case by simp
next
  case (Cons t tables)
  show ?case
  proof (cases realRun)
    case False
    obtain es where "trace (dropLoop E realRun tables (log_Printf (LogDropped t) w)) =
        trace (log_Printf (LogDropped t) w) @ es" and "list_all sweep_event es"
      using Cons.IH by blast
    then show ?thesis using False
      by (intro exI [of _ "Logged (LogDropped t) # es"]) (simp add: log_Printf_def)
  next
    case True
    obtain r w' where x: "db_Exec E (DropTableIfExists t) w = (r, w')"
      by (cases "db_Exec E (DropTableIfExists t) w")
    have tr: "trace w' = trace w @ [Executed (DropTableIfExists t)]"
      using db_Exec_trace [of E "DropTableIfExists t" w] x by simp
    let ?l = "case r of Some e \<Rightarrow> LogDropFailed t e | None \<Rightarrow> LogDropped t"
    have step: "dropLoop E realRun (t # tables) w = dropLoop E realRun tables (log_Printf ?l w')"
      using True x by (cases r) simp_all
    obtain es where "trace (dropLoop E realRun tables (log_Printf ?l w')) =
        trace (log_Printf ?l w') @ es" and "list_all sweep_event es"
      using Cons.IH by blast
    then show ?thesis unfolding step
      by (intro exI [of _ "Executed (DropTableIfExists t) # Logged ?l # es"])
         (cases r; simp add: log_Printf_def tr)
  qed
qed

lemma createLoop_events:
  "\<exists>es. trace (createLoop E prefix realRun currentDate tables w) = trace w @ es \<and> list_all snapshot_event es"
proof (induction tables arbitrary: w)
  case Nil
  show ?case by simp
next
  case (Cons t tables)
  let ?b = "backupTableName prefix t currentDate"
  show ?case
  proof (cases realRun)
    case False
    obtain es where "trace (createLoop E prefix realRun currentDate tables (log_Printf (LogCreated t ?b) w)) =
        trace (log_Printf (LogCreated t ?b) w) @ es" and "list_all snapshot_event es"
      using Cons.IH by blast
    then show ?thesis using False
      by (intro exI [of _ "Logged (LogCreated t ?b) # es"]) (simp add: log_Printf_def)
  next
    case True
    obtain r w' where x: "db_Exec E (CreateTableAs ?b t) w = (r, w')"
      by (cases "db_Exec E (CreateTableAs ?b t) w")
    have tr: "trace w' = trace w @ [Executed (CreateTableAs ?b t)]"
      using db_Exec_trace [of E "CreateTableAs ?b t" w] x by simp
    let ?l = "case r of Some e \<Rightarrow> LogCreateFailed t e | None \<Rightarrow> LogCreated t ?b"
    have step: "createLoop E prefix realRun currentDate (t # tables) w =
                  createLoop E prefix realRun currentDate tables (log_Printf ?l w')"
      using True x by (cases r) (simp_all add: createBackupTable_def)
    obtain es where "trace (createLoop E prefix realRun currentDate tables (log_Printf ?l w')) =
        trace (log_Printf ?l w') @ es" and "list_all snapshot_event es"
      using Cons.IH by blast
    then show ?thesis unfolding step
      by (intro exI [of _ "Executed (CreateTableAs ?b t) # Logged ?l # es"])
         (cases r; simp add: log_Printf_def tr)
  qed
qed

lemma sweep_error_stops_run:
  "deleteOldBackups E prefix retentionDays realRun w = (Some e, w1) \<Longrightarrow>
     performBackup E prefix retentionDays realRun w = (Some (DeleteOldBackupsError e), w1) \<and>
     w1 = sent (SelectLike prefix) w"
  by (auto simp: performBackup_def deleteOldBackups_def split: sum.splits)

lemma reported_errors_returned:
  "fst (performBackup E prefix retentionDays realRun w) =
     (case tablesToDelete E prefix retentionDays w of
        Inl e \<Rightarrow> Some (DeleteOldBackupsError e)
      | Inr tables \<Rightarrow>
          (case fst (getTablesToBackup E prefix (dropLoop E realRun tables (sent (SelectLike prefix) w))) of
             Inl e \<Rightarrow> Some (GetTablesError e)
           | Inr sources \<Rightarrow> None))"
  by (simp add: performBackup_def deleteOldBackups_def Let_def split: sum.split prod.split)

lemma dropLoop_keeps:
  assumes "\<forall>t \<in> set tables. \<not> P t"
  shows "filter P (catalog (dropLoop E realRun tables w)) = filter P (catalog w)"
proof (cases realRun)
  case True
  then show ?thesis using assms by (simp add: dropLoop_real_keeps)
next
  case False
  then show ?thesis by (simp add: dropLoop_dry)
qed

lemma soft_errors_absorbed:
  "fst (performBackup (E\<lparr>exec_fault := f\<rparr>) prefix retentionDays realRun w) =
   fst (performBackup E prefix retentionDays realRun w)"
proof (cases "tablesToDelete E prefix retentionDays w")
  case (Inl e)
  then show ?thesis by (simp add: reported_errors_returned tablesToDelete_exec_fault)
next
  case (Inr dels)
  let ?w0 = "sent (SelectLike prefix) w"
  have marked: "\<forall>t \<in> set dels. \<not> \<not> has_prefix prefix t"
    using tablesToDelete_sound [OF Inr] by simp
  have k: "select_not_like prefix (dropLoop E' realRun dels ?w0) = select_not_like prefix ?w0" for E'
    unfolding select_not_like_def using marked by (rule dropLoop_keeps)
  have "fst (getTablesToBackup (E\<lparr>exec_fault := f\<rparr>) prefix (dropLoop (E\<lparr>exec_fault := f\<rparr>) realRun dels ?w0))
      = fst (getTablesToBackup E prefix (dropLoop E realRun dels ?w0))"
    by (simp add: getTablesToBackup_def k split: sum.split)
  then show ?thesis using Inr by (simp add: reported_errors_returned tablesToDelete_exec_fault)
qed

lemma phases_in_order:
  "\<exists>a b. trace (snd (performBackup E prefix retentionDays realRun w)) = trace w @ a @ b
         \<and> list_all sweep_event a \<and> list_all snapshot_event b
         \<and> (fst (deleteOldBackups E prefix retentionDays realRun w) \<noteq> None \<longrightarrow> b = [])"
proof (cases "tablesToDelete E prefix retentionDays w")
  case (Inl e)
  then have "performBackup E prefix retentionDays realRun w =
               (Some (DeleteOldBackupsError e), sent (SelectLike prefix) w)"
    by (simp add: performBackup_def deleteOldBackups_def)
  then show ?thesis
    by (intro exI [of _ "[Queried (SelectLike prefix)]"] exI [of _ "[]"]) (simp add: sent_def)
next
  case (Inr dels)
  let ?w1 = "dropLoop E realRun dels (sent (SelectLike prefix) w)"
  let ?w2 = "sent (SelectNotLike prefix) ?w1"
  have sweep: "deleteOldBackups E prefix retentionDays realRun w = (None, ?w1)"
    using Inr by (simp add: deleteOldBackups_def)
  obtain es where es: "trace ?w1 = trace (sent (SelectLike prefix) w) @ es" "list_all sweep_event es"
    using dropLoop_events by blast
  let ?a = "Queried (SelectLike prefix) # es"
  have a: "trace ?w1 = trace w @ ?a" "list_all sweep_event ?a"
    using es by (simp_all add: sent_def)
  show ?thesis
  proof (cases "fst (getTablesToBackup E prefix ?w1)")
    case (Inl e)
    have "performBackup E prefix retentionDays realRun w = (Some (GetTablesError e), ?w2)"
      using Inl sweep getTablesToBackup_world [of E prefix ?w1]
      by (cases "getTablesToBackup E prefix ?w1") (simp add: performBackup_def)
    then show ?thesis using a sweep
      by (intro exI [of _ ?a] exI [of _ "[Queried (SelectNotLike prefix)]"]) (simp add: sent_def)
  next
    case (Inr srcs)
    let ?w3 = "createLoop E prefix realRun (format_date (snapshot_now E)) srcs ?w2"
    have run: "performBackup E prefix retentionDays realRun w = (None, ?w3)"
      using Inr sweep getTablesToBackup_world [of E prefix ?w1]
      by (cases "getTablesToBackup E prefix ?w1") (simp add: performBackup_def)
    obtain cs where cs: "trace ?w3 = trace ?w2 @ cs" "list_all snapshot_event cs"
      using createLoop_events by blast
    show ?thesis using a cs run sweep
      by (intro exI [of _ ?a] exI [of _ "Queried (SelectNotLike prefix) # cs"]) (simp add: sent_def)
  qed
qed

text \<open>
  Claim C3 asks that a failed catalog enumeration aborts the run and is returned. Neither
  rows loop consults \<open>rows.Err()\<close> after \<open>rows.Next()\<close> has returned false, so an
  enumeration that breaks while the rows are fetched is taken for a complete one. Here the
  sweep's stream breaks after its first row, in a real run: the run drops
  \<open>autobackup_a_20230101\<close>, never sees \<open>autobackup_b_20230102\<close>, makes its backups
  and returns no error.
\<close>

theorem broken_stream_not_reported:
  "enumeration_failed (StreamBreaks 1 (DbError ''connection reset''))
     (select_like ''autobackup''
        \<lparr>catalog = [''autobackup_a_20230101'', ''autobackup_b_20230102'', ''users''], trace = []\<rparr>)
   \<and> performBackup
       \<lparr>sweep_now = Date 2023 5 15, snapshot_now = Date 2023 5 15, wall_date = (\<lambda>d. d),
         overflow_date = (\<lambda>k. Date 2000 2 2),
         like_fault = StreamBreaks 1 (DbError ''connection reset''),
         notlike_fault = NoFault, exec_fault = (\<lambda>n s. None)\<rparr>
       ''autobackup'' 14 True
       \<lparr>catalog = [''autobackup_a_20230101'', ''autobackup_b_20230102'', ''users''], trace = []\<rparr>
     = (None,
        \<lparr>catalog = [''autobackup_b_20230102'', ''users'', ''autobackup_users_20230515''],
          trace = [Queried (SelectLike ''autobackup''),
                   Executed (DropTableIfExists ''autobackup_a_20230101''),
                   Logged (LogDropped ''autobackup_a_20230101''),
                   Queried (SelectNotLike ''autobackup''),
                   Executed (CreateTableAs ''autobackup_users_20230515'' ''users''),
                   Logged (LogCreated ''users'' ''autobackup_users_20230515'')]\<rparr>)"
proof -
  let ?E = "\<lparr>sweep_now = Date 2023 5 15, snapshot_now = Date 2023 5 15, wall_date = (\<lambda>d. d),
         overflow_date = (\<lambda>k. Date 2000 2 2),
         like_fault = StreamBreaks (Suc 0) (DbError ''connection reset''),
         notlike_fault = NoFault, exec_fault = (\<lambda>n s. None)\<rparr>"
  have "format_date (add_days (Date 2023 5 15) (- 14)) = ''20230501''" by code_simp
  then have th: "threshold_of ?E 14 = ''20230501''"
    by (simp add: threshold_of_calendar day_range_def)
  have f: "format_date (Date 2023 5 15) = ''20230515''" by code_simp
  show ?thesis
    by (simp add: performBackup_def deleteOldBackups_def tablesToDelete_def sweepRows_def getTablesToBackup_def
          select_like_def select_not_like_def has_prefix_def sent_def log_Printf_def th f
          backupTableName_def Let_def db_Exec_def createBackupTable_def)
qed

text \<open>
  Claim C7 asks that the snapshot pass is not started when the sweep's enumeration has
  failed. With the same omission, a sweep whose stream breaks after the first of its two
  rows returns no error, and the snapshot pass runs: it sends its query and creates a
  backup.
\<close>

theorem snapshot_after_broken_sweep:
  "enumeration_failed (StreamBreaks 1 (DbError ''statement timeout''))
     (select_like ''autobackup''
        \<lparr>catalog = [''autobackup_orders_20230102'', ''autobackup_orders_20230103'', ''orders''],
          trace = []\<rparr>)
   \<and> performBackup
       \<lparr>sweep_now = Date 2023 5 16, snapshot_now = Date 2023 5 16, wall_date = (\<lambda>d. d),
         overflow_date = (\<lambda>k. Date 2000 2 2),
         like_fault = StreamBreaks 1 (DbError ''statement timeout''),
         notlike_fault = NoFault, exec_fault = (\<lambda>n s. None)\<rparr>
       ''autobackup'' 14 True
       \<lparr>catalog = [''autobackup_orders_20230102'', ''autobackup_orders_20230103'', ''orders''],
         trace = []\<rparr>
     = (None,
        \<lparr>catalog = [''autobackup_orders_20230103'', ''orders'', ''autobackup_orders_20230516''],
          trace = [Queried (SelectLike ''autobackup''),
                   Executed (DropTableIfExists ''autobackup_orders_20230102''),
                   Logged (LogDropped ''autobackup_orders_20230102''),
                   Queried (SelectNotLike ''autobackup''),
                   Executed (CreateTableAs ''autobackup_orders_20230516'' ''orders''),
                   Logged (LogCreated ''orders'' ''autobackup_orders_20230516'')]\<rparr>)"
proof -
  let ?E = "\<lparr>sweep_now = Date 2023 5 16, snapshot_now = Date 2023 5 16, wall_date = (\<lambda>d. d),
         overflow_date = (\<lambda>k. Date 2000 2 2),
         like_fault = StreamBreaks (Suc 0) (DbError ''statement timeout''),
         notlike_fault = NoFault, exec_fault = (\<lambda>n s. None)\<rparr>"
  have "format_date (add_days (Date 2023 5 16) (- 14)) = ''20230502''" by code_simp
  then have th: "threshold_of ?E 14 = ''20230502''"
    by (simp add: threshold_of_calendar day_range_def)
  have f: "format_date (Date 2023 5 16) = ''20230516''" by code_simp
  show ?thesis
    by (simp add: performBackup_def deleteOldBackups_def tablesToDelete_def sweepRows_def
          getTablesToBackup_def select_like_def select_not_like_def has_prefix_def sent_def
          log_Printf_def th f backupTableName_def Let_def db_Exec_def createBackupTable_def)
qed

end
